theory Spec2Isabelle
  imports Complex_Main "HOL-Library.Log_Nat"
begin

section \<open>Decimal arithmetic of the default context\<close>

text \<open>
  Every amount, price, fee and fraction of the strategy is a Python \<^verbatim>\<open>decimal.Decimal\<close>.
  The sources at hand never change the arithmetic context, so the default one applies: 28
  significant digits, rounding mode \<^verbatim>\<open>ROUND_HALF_EVEN\<close>. A \<^verbatim>\<open>Decimal\<close> is modelled by
  its numeric value, a rational number. The operators \<^verbatim>\<open>+\<close>, \<^verbatim>\<open>-\<close>, \<^verbatim>\<open>*\<close>, \<^verbatim>\<open>/\<close> and unary
  minus return the exact result rounded to the precision of the context; comparisons are
  exact; an \<^verbatim>\<open>int\<close> operand is converted exactly. Constructing a \<^verbatim>\<open>Decimal\<close> from a string
  or a float does not round, so a value may carry more than 28 digits until an operator
  touches it. Two things are outside the model: the position of the exponent (trailing
  zeros, which only printing shows) and the exponent limits \<^verbatim>\<open>Emin\<close>, \<^verbatim>\<open>Emax\<close> of \<open>\<plusminus>999999\<close>.
\<close>

type_synonym decimal = rat

definition prec :: nat where
  "prec = 28"

text \<open>Rounding a non-negative quotient to an integer, ties to the even neighbour.\<close>

definition round_half_even :: "rat \<Rightarrow> int" where
  "round_half_even y =
     (let f = \<lfloor>y\<rfloor>; r = y - of_int f
      in if r < 1 / 2 then f else if 1 / 2 < r then f + 1 else if even f then f else f + 1)"

text \<open>
  The adjusted exponent of a non-zero value: the exponent of its leading digit, that is
  the integer \<open>e\<close> with \<open>10\<^sup>e \<le> \<bar>x\<bar> < 10\<^sup>e\<^sup>+\<^sup>1\<close> (\<^verbatim>\<open>Decimal.adjusted()\<close>).
\<close>

definition adjusted :: "rat \<Rightarrow> int" where
  "adjusted x =
     (if 1 \<le> \<bar>x\<bar> then int (floorlog 10 (nat \<lfloor>\<bar>x\<bar>\<rfloor>)) - 1
      else - int (floorlog 10 (nat (\<lceil>1 / \<bar>x\<bar>\<rceil> - 1))))"

text \<open>
  Rounding to the context: the digits below the 28th significant one are dropped, half-even,
  on the magnitude; the sign is kept.
\<close>

definition dec_round :: "rat \<Rightarrow> decimal" where
  "dec_round x =
     (if x = 0 then 0
      else let q = 10 powi (adjusted x - (int prec - 1))
           in sgn x * (of_int (round_half_even (\<bar>x\<bar> / q)) * q))"

definition dec_add :: "decimal \<Rightarrow> decimal \<Rightarrow> decimal" where
  "dec_add a b = dec_round (a + b)"

definition dec_sub :: "decimal \<Rightarrow> decimal \<Rightarrow> decimal" where
  "dec_sub a b = dec_round (a - b)"

definition dec_mul :: "decimal \<Rightarrow> decimal \<Rightarrow> decimal" where
  "dec_mul a b = dec_round (a * b)"

definition dec_neg :: "decimal \<Rightarrow> decimal" where
  "dec_neg a = dec_round (- a)"

datatype error =
    InsufficientLiquidity
  | QuoteProviderUnavailable
  | IndexError
  | KeyError
  | DivisionByZero
  | InvalidOperation

text \<open>
  Division traps in the default context: a non-zero value divided by zero raises
  \<^verbatim>\<open>DivisionByZero\<close>, zero divided by zero raises \<^verbatim>\<open>InvalidOperation\<close>.
\<close>

definition dec_div :: "decimal \<Rightarrow> decimal \<Rightarrow> error + decimal" where
  "dec_div a b =
     (if b = 0 then (if a = 0 then Inl InvalidOperation else Inl DivisionByZero)
      else Inr (dec_round (a / b)))"

section \<open>Data model\<close>

text \<open>
  \<^verbatim>\<open>MarketTradingPairTuple\<close>: the source reads \<^verbatim>\<open>market_info.market.name\<close> and
  \<^verbatim>\<open>market_info.trading_pair\<close>.
\<close>

record MarketTradingPairTuple =
  market_name :: string
  trading_pair :: string

text \<open>
  \<^verbatim>\<open>ArbProposalSide\<close> and \<^verbatim>\<open>ArbProposal\<close> are declared in \<^verbatim>\<open>amm_arb/data_types.py\<close>, which
  is not part of the sources at hand. The fields are the ones the controller reads; the
  fee rate of a side is the one the specification's data model lists.
\<close>

record ArbProposalSide =
  market_info :: MarketTradingPairTuple
  is_buy :: bool
  order_price :: decimal
  amount :: decimal
  fee :: decimal

record ArbProposal =
  first_side :: ArbProposalSide
  second_side :: ArbProposalSide

datatype TradeType = BUY | SELL

datatype OrderType = TAKER | MAKER

record OrderCandidate =
  oc_trading_pair :: string
  is_maker :: bool
  trade_type :: TradeType
  order_type :: OrderType
  oc_amount :: decimal
  price :: decimal

record ExecutorInfo =
  controller_id :: string
  executor_name :: string
  order_candidate :: OrderCandidate

text \<open>\<^verbatim>\<open>AmmArbV2Config\<close> (\<^verbatim>\<open>amm_arb_config.py\<close>); \<^verbatim>\<open>config.id\<close> comes from the base class.\<close>

record AmmArbV2Config =
  config_id :: string
  connector_1 :: string
  trading_pair_1 :: string
  connector_2 :: string
  trading_pair_2 :: string
  min_order_amount :: decimal
  max_order_amount :: decimal
  min_profitability :: decimal
  market_1_slippage_buffer :: decimal
  market_2_slippage_buffer :: decimal

text \<open>The field defaults of the configuration class.\<close>

definition default_config :: AmmArbV2Config where
  "default_config =
     \<lparr>config_id = ''main'', connector_1 = ''binance'', trading_pair_1 = ''BTC-USDT'',
      connector_2 = ''uniswap_v2'', trading_pair_2 = ''WBTC-WETH'',
      min_order_amount = 1 / 100, max_order_amount = 1, min_profitability = 5 / 1000,
      market_1_slippage_buffer = 1 / 100, market_2_slippage_buffer = 1 / 100\<rparr>"

text \<open>
  The controller: its configuration, the last proposal, and the \<^verbatim>\<open>connectors\<close> dictionary
  of the base class.
\<close>

record AmmArbV2Controller =
  config :: AmmArbV2Config
  last_proposal :: "ArbProposal option"
  connectors :: "string \<rightharpoonup> MarketTradingPairTuple"

text \<open>\<^verbatim>\<open>__init__\<close> stores the configuration as it is given and clears the last proposal.\<close>

definition controller_init ::
  "AmmArbV2Config \<Rightarrow> (string \<rightharpoonup> MarketTradingPairTuple) \<Rightarrow> AmmArbV2Controller" where
  "controller_init cfg conns = \<lparr>config = cfg, last_proposal = None, connectors = conns\<rparr>"

section \<open>Profitability of a proposal\<close>

text \<open>
  Modelled from the spec: the buy side and the sell side of a proposal. The specification
  says that exactly one of \<^verbatim>\<open>first_side\<close> and \<^verbatim>\<open>second_side\<close> is a buy; the class that
  holds them is missing.
\<close>

definition buy_side :: "ArbProposal \<Rightarrow> ArbProposalSide" where
  "buy_side p = (if is_buy (first_side p) then first_side p else second_side p)"

definition sell_side :: "ArbProposal \<Rightarrow> ArbProposalSide" where
  "sell_side p = (if is_buy (first_side p) then second_side p else first_side p)"

text \<open>
  Modelled from the spec: \<^verbatim>\<open>ArbProposal.profit_pct\<close> lives in \<^verbatim>\<open>amm_arb/data_types.py\<close>,
  which is missing. The specification gives
  \<^verbatim>\<open>outlay = buy_side.amount * buy_side.price * (1 + buy_side.fee if account_for_fee else 1)\<close>,
  \<^verbatim>\<open>proceeds = sell_side.amount * sell_side.price * (1 - sell_side.fee if account_for_fee else 1)\<close>
  and the result \<^verbatim>\<open>proceeds / outlay - 1\<close>, a \<^verbatim>\<open>Decimal\<close>.
\<close>

definition profit_pct :: "ArbProposal \<Rightarrow> bool \<Rightarrow> error + decimal" where
  "profit_pct p account_for_fee =
     (let b = buy_side p; s = sell_side p;
          outlay = dec_mul (dec_mul (amount b) (order_price b))
                     (if account_for_fee then dec_add 1 (fee b) else 1);
          proceeds = dec_mul (dec_mul (amount s) (order_price s))
                       (if account_for_fee then dec_sub 1 (fee s) else 1)
      in case dec_div proceeds outlay of
           Inl e \<Rightarrow> Inl e
         | Inr ratio \<Rightarrow> Inr (dec_sub ratio 1))"

text \<open>
  Modelled from the spec: the invariant of the data model for a side (amount \<open>> 0\<close>,
  price \<open>> 0\<close>, fee rate in \<open>[0, 1)\<close>) and for the two sides of a proposal.
\<close>

definition side_ok :: "ArbProposalSide \<Rightarrow> bool" where
  "side_ok s \<longleftrightarrow> 0 < amount s \<and> 0 < order_price s \<and> 0 \<le> fee s \<and> fee s < 1"

definition proposal_ok :: "ArbProposal \<Rightarrow> bool" where
  "proposal_ok p \<longleftrightarrow> side_ok (first_side p) \<and> side_ok (second_side p)"

section \<open>The controller\<close>

text \<open>
  \<^verbatim>\<open>create_arb_proposals\<close> (\<^verbatim>\<open>amm_arb/utils.py\<close>, missing) asks the two venues for quotes. It
  is a parameter of the model: a call takes the state of the outside world, the buy market,
  the sell market and the order amount; it returns the list of proposals or the exception
  it raises, and the next state of the world.
\<close>

type_synonym 'w quote_provider =
  "'w \<Rightarrow> MarketTradingPairTuple \<Rightarrow> MarketTradingPairTuple \<Rightarrow> decimal
     \<Rightarrow> (error + ArbProposal list) \<times> 'w"

definition num_steps :: nat where
  "num_steps = 20"

text \<open>
  The body of the \<^verbatim>\<open>for i in range(num_steps)\<close> loop of \<^verbatim>\<open>find_best_size_for_direction\<close>,
  over the indices still to visit. The pair is \<^verbatim>\<open>(best_profit_pct, best_proposal)\<close>. The
  loop has no exception handler: an exception of the call, of \<^verbatim>\<open>proposals[0]\<close> or of
  \<^verbatim>\<open>profit_pct\<close> leaves it.
\<close>

fun find_best_size_loop ::
  "'w quote_provider \<Rightarrow> AmmArbV2Config \<Rightarrow> MarketTradingPairTuple \<Rightarrow> MarketTradingPairTuple
     \<Rightarrow> decimal \<Rightarrow> nat list \<Rightarrow> decimal \<times> ArbProposal option \<Rightarrow> 'w
     \<Rightarrow> (error + decimal \<times> ArbProposal option) \<times> 'w" where
  "find_best_size_loop create_arb_proposals cfg buy_market sell_market step_size [] best w =
     (Inr best, w)"
| "find_best_size_loop create_arb_proposals cfg buy_market sell_market step_size (i # rest)
     best w =
     (let order_amount = dec_add (min_order_amount cfg) (dec_mul (of_nat i) step_size)
      in case create_arb_proposals w buy_market sell_market order_amount of
           (Inl e, w') \<Rightarrow> (Inl e, w')
         | (Inr proposals, w') \<Rightarrow>
             (case proposals of
                [] \<Rightarrow> (Inl IndexError, w')
              | proposal # _ \<Rightarrow>
                  (case profit_pct proposal True of
                     Inl e \<Rightarrow> (Inl e, w')
                   | Inr pct \<Rightarrow>
                       find_best_size_loop create_arb_proposals cfg buy_market sell_market
                         step_size rest
                         (if fst best < pct then (pct, Some proposal) else best) w')))"

text \<open>
  The end of \<^verbatim>\<open>find_best_size_for_direction\<close>. An \<^verbatim>\<open>ArbProposal\<close> object is truthy, so
  \<^verbatim>\<open>if best_proposal and best_profit_pct > 0\<close> asks for a proposal and a positive profit.
\<close>

definition finish_sweep :: "decimal \<times> ArbProposal option \<Rightarrow> (ArbProposal \<times> decimal) option" where
  "finish_sweep best =
     (case snd best of
        None \<Rightarrow> None
      | Some proposal \<Rightarrow> if 0 < fst best then Some (proposal, fst best) else None)"

text \<open>
  \<^verbatim>\<open>find_best_size_for_direction\<close>: the step, the loop from \<^verbatim>\<open>(Decimal("-1"), None)\<close>, the
  final test. The divisor \<^verbatim>\<open>num_steps - 1\<close> is an \<^verbatim>\<open>int\<close>.
\<close>

definition find_best_size_for_direction ::
  "'w quote_provider \<Rightarrow> AmmArbV2Config \<Rightarrow> MarketTradingPairTuple \<Rightarrow> MarketTradingPairTuple
     \<Rightarrow> 'w \<Rightarrow> (error + (ArbProposal \<times> decimal) option) \<times> 'w" where
  "find_best_size_for_direction create_arb_proposals cfg buy_market sell_market w =
     (case dec_div (dec_sub (max_order_amount cfg) (min_order_amount cfg))
             (of_nat (num_steps - 1)) of
        Inl e \<Rightarrow> (Inl e, w)
      | Inr step_size \<Rightarrow>
          (case find_best_size_loop create_arb_proposals cfg buy_market sell_market step_size
                  [0..<num_steps] (- 1, None) w of
             (Inl e, w') \<Rightarrow> (Inl e, w')
           | (Inr best, w') \<Rightarrow> (Inr (finish_sweep best), w')))"

text \<open>The step and the order amount of sample \<open>i\<close>, as the sweep computes them.\<close>

definition step_size_of :: "AmmArbV2Config \<Rightarrow> decimal" where
  "step_size_of cfg =
     dec_round (dec_sub (max_order_amount cfg) (min_order_amount cfg) / of_nat (num_steps - 1))"

definition sample_size :: "AmmArbV2Config \<Rightarrow> nat \<Rightarrow> decimal" where
  "sample_size cfg i = dec_add (min_order_amount cfg) (dec_mul (of_nat i) (step_size_of cfg))"

text \<open>
  The last three lines of \<^verbatim>\<open>find_optimal_arb_opportunity\<close>: a tuple is truthy and \<^verbatim>\<open>None\<close>
  is falsy.
\<close>

definition select_opportunity ::
  "(ArbProposal \<times> decimal) option \<Rightarrow> (ArbProposal \<times> decimal) option
     \<Rightarrow> (ArbProposal \<times> decimal) option" where
  "select_opportunity opp1 opp2 =
     (case (opp1, opp2) of
        (Some a, Some b) \<Rightarrow> if snd b < snd a then opp1 else opp2
      | _ \<Rightarrow> (case opp1 of Some a \<Rightarrow> opp1 | None \<Rightarrow> opp2))"

definition find_optimal_arb_opportunity ::
  "'w quote_provider \<Rightarrow> AmmArbV2Controller \<Rightarrow> 'w
     \<Rightarrow> (error + (ArbProposal \<times> decimal) option) \<times> 'w" where
  "find_optimal_arb_opportunity create_arb_proposals self w =
     (case connectors self ''market_1'' of
        None \<Rightarrow> (Inl KeyError, w)
      | Some market_1 \<Rightarrow>
          (case connectors self ''market_2'' of
             None \<Rightarrow> (Inl KeyError, w)
           | Some market_2 \<Rightarrow>
               (case find_best_size_for_direction create_arb_proposals (config self)
                       market_1 market_2 w of
                  (Inl e, w1) \<Rightarrow> (Inl e, w1)
                | (Inr opp1, w1) \<Rightarrow>
                    (case find_best_size_for_direction create_arb_proposals (config self)
                            market_2 market_1 w1 of
                       (Inl e, w2) \<Rightarrow> (Inl e, w2)
                     | (Inr opp2, w2) \<Rightarrow> (Inr (select_opportunity opp1 opp2), w2)))))"

definition get_slippage_buffer :: "AmmArbV2Config \<Rightarrow> ArbProposalSide \<Rightarrow> decimal" where
  "get_slippage_buffer cfg side =
     (if market_name (market_info side) = connector_1 cfg then market_1_slippage_buffer cfg
      else market_2_slippage_buffer cfg)"

definition create_order_candidate :: "AmmArbV2Config \<Rightarrow> ArbProposalSide \<Rightarrow> OrderCandidate" where
  "create_order_candidate cfg side =
     (let slippage_buffer = get_slippage_buffer cfg side;
          price_adjustment =
            dec_add 1 (if is_buy side then slippage_buffer else dec_neg slippage_buffer)
      in \<lparr>oc_trading_pair = trading_pair (market_info side),
          is_maker = False,
          trade_type = (if is_buy side then BUY else SELL),
          order_type = TAKER,
          oc_amount = amount side,
          price = dec_mul (order_price side) price_adjustment\<rparr>)"

definition create_executors :: "AmmArbV2Config \<Rightarrow> ArbProposal \<Rightarrow> ExecutorInfo list" where
  "create_executors cfg proposal =
     map (\<lambda>side. \<lparr>controller_id = config_id cfg, executor_name = ''dca_simple'',
                  order_candidate = create_order_candidate cfg side\<rparr>)
       [first_side proposal, second_side proposal]"

text \<open>
  \<^verbatim>\<open>determine_actions\<close> returns the executors or the exception, the controller after the
  call and the world after the call. The log line it writes is not modelled.
\<close>

definition determine_actions ::
  "'w quote_provider \<Rightarrow> AmmArbV2Controller \<Rightarrow> 'w
     \<Rightarrow> (error + ExecutorInfo list) \<times> AmmArbV2Controller \<times> 'w" where
  "determine_actions create_arb_proposals self w =
     (case find_optimal_arb_opportunity create_arb_proposals self w of
        (Inl e, w') \<Rightarrow> (Inl e, self, w')
      | (Inr None, w') \<Rightarrow> (Inr [], self, w')
      | (Inr (Some (proposal, pct)), w') \<Rightarrow>
          (let self' = self\<lparr>last_proposal := Some proposal\<rparr>
           in if min_profitability (config self') \<le> pct
              then (Inr (create_executors (config self') proposal), self', w')
              else (Inr [], self', w')))"


section \<open>Example venues and quotes\<close>

text \<open>Concrete markets, proposals and venues, used where a statement is run on an input.\<close>

definition binance :: MarketTradingPairTuple where
  "binance = \<lparr>market_name = ''binance'', trading_pair = ''BTC-USDT''\<rparr>"

definition uniswap :: MarketTradingPairTuple where
  "uniswap = \<lparr>market_name = ''uniswap_v2'', trading_pair = ''WBTC-WETH''\<rparr>"

definition example_connectors :: "string \<rightharpoonup> MarketTradingPairTuple" where
  "example_connectors = [''market_1'' \<mapsto> binance, ''market_2'' \<mapsto> uniswap]"

text \<open>
  A proposal that buys \<open>a\<close> at price \<open>bp\<close> on the buy market and sells \<open>a\<close> at price
  \<open>sp\<close> on the sell market, with the same fee rate on both sides.
\<close>

definition quote_at ::
  "MarketTradingPairTuple \<Rightarrow> MarketTradingPairTuple \<Rightarrow> decimal \<Rightarrow> decimal \<Rightarrow> decimal
     \<Rightarrow> decimal \<Rightarrow> ArbProposal" where
  "quote_at buy sell a bp sp f =
     \<lparr>first_side = \<lparr>market_info = buy, is_buy = True, order_price = bp, amount = a, fee = f\<rparr>,
      second_side = \<lparr>market_info = sell, is_buy = False, order_price = sp, amount = a, fee = f\<rparr>\<rparr>"

text \<open>
  A venue that quotes one lot whatever amount is asked: bought at 1000, sold at 1008 on
  \<open>uniswap_v2\<close> and at 1005 elsewhere, without fees. Both directions are profitable, the
  first by 0.008 and the second by 0.005.
\<close>

definition two_way_venue :: "unit quote_provider" where
  "two_way_venue =
     (\<lambda>w buy sell a.
        (Inr [quote_at buy sell 1 1000
                (if market_name sell = ''uniswap_v2'' then 1008 else 1005) 0], w))"



text \<open>A venue without any price difference.\<close>

definition flat_venue :: "unit quote_provider" where
  "flat_venue = (\<lambda>w buy sell a. (Inr [quote_at buy sell 1 1000 1000 0], w))"

text \<open>
  A venue that quotes the amount asked at 1000 and 1008, and cannot quote an amount of 1
  or more.
\<close>

definition capped_venue :: "unit quote_provider" where
  "capped_venue =
     (\<lambda>w buy sell a.
        if a < 1 then (Inr [quote_at buy sell a 1000 1008 0], w)
        else (Inl InsufficientLiquidity, w))"

text \<open>
  An observer around a venue: the state of the world also lists the order amounts asked so
  far, oldest first.
\<close>

definition recording :: "'w quote_provider \<Rightarrow> ('w \<times> decimal list) quote_provider" where
  "recording q =
     (\<lambda>(w, asked) buy sell a. case q w buy sell a of (r, w') \<Rightarrow> (r, (w', asked @ [a])))"

text \<open>Configurations: a narrow range, an inverted range, a high threshold, no buffer.\<close>

definition narrow_config :: AmmArbV2Config where
  "narrow_config = default_config\<lparr>min_order_amount := 1 / 100, max_order_amount := 4 / 100\<rparr>"

definition inverted_config :: AmmArbV2Config where
  "inverted_config = default_config\<lparr>min_order_amount := 1, max_order_amount := 1 / 100\<rparr>"

definition strict_config :: AmmArbV2Config where
  "strict_config = default_config\<lparr>min_profitability := 1 / 100\<rparr>"



section \<open>Rounding to the context is monotone\<close>

lemma round_half_even_bounds:
  "\<lfloor>y\<rfloor> \<le> round_half_even y \<and> round_half_even y \<le> \<lfloor>y\<rfloor> + 1"
  by (simp add: round_half_even_def Let_def)

lemma round_half_even_of_int [simp]: "round_half_even (of_int n) = n"
  by (simp add: round_half_even_def)

lemma round_half_even_mono:
  assumes "a \<le> b"
  shows "round_half_even a \<le> round_half_even b"
proof (cases "\<lfloor>a\<rfloor> = \<lfloor>b\<rfloor>")
  case True
  with assms show ?thesis
    by (auto simp: round_half_even_def Let_def)
next
  case False
  from assms have "\<lfloor>a\<rfloor> \<le> \<lfloor>b\<rfloor>" by (rule floor_mono)
  with False have "\<lfloor>a\<rfloor> + 1 \<le> \<lfloor>b\<rfloor>" by simp
  with round_half_even_bounds [of a] round_half_even_bounds [of b] show ?thesis
    by linarith
qed

lemma digits_bounds:
  assumes "0 < n"
  shows "10 ^ (floorlog 10 n - 1) \<le> n" and "n < 10 ^ floorlog 10 n" and "0 < floorlog 10 n"
  using floorlog_bounds [of n 10] assms
  by (auto simp: floorlog_eq_zero_iff intro: Nat.gr0I)

lemma adjusted_bounds_ge1:
  fixes x :: rat
  assumes "1 \<le> \<bar>x\<bar>"
  shows "10 powi adjusted x \<le> \<bar>x\<bar>" and "\<bar>x\<bar> < 10 powi (adjusted x + 1)"
proof -
  define n where "n = nat \<lfloor>\<bar>x\<bar>\<rfloor>"
  define d where "d = floorlog 10 n"
  have fl: "1 \<le> \<lfloor>\<bar>x\<bar>\<rfloor>" using assms by (simp add: le_floor_iff)
  then have n: "0 < n" and nx: "of_nat n \<le> \<bar>x\<bar>" and xn: "\<bar>x\<bar> < of_nat n + 1"
    unfolding n_def using floor_correct [of "\<bar>x\<bar>"] by auto
  have d: "0 < d" "10 ^ (d - 1) \<le> n" "n < 10 ^ d"
    unfolding d_def using digits_bounds [OF n] by auto
  have adj: "adjusted x = int d - 1"
    using assms by (simp add: adjusted_def n_def d_def)
  have e1: "int d - 1 = int (d - 1)" using d(1) by simp
  have "(10::rat) ^ (d - 1) \<le> of_nat n"
    using d(2) by (metis of_nat_le_iff of_nat_numeral of_nat_power)
  with nx show "10 powi adjusted x \<le> \<bar>x\<bar>"
    unfolding adj e1 power_int_of_nat by linarith
  have "n + 1 \<le> 10 ^ d" using d(3) by linarith
  then have "of_nat (n + 1) \<le> (10::rat) ^ d"
    by (metis of_nat_le_iff of_nat_numeral of_nat_power)
  with xn show "\<bar>x\<bar> < 10 powi (adjusted x + 1)"
    unfolding adj by simp
qed

lemma adjusted_bounds_lt1:
  fixes x :: rat
  assumes "x \<noteq> 0" and "\<bar>x\<bar> < 1"
  shows "10 powi adjusted x \<le> \<bar>x\<bar>" and "\<bar>x\<bar> < 10 powi (adjusted x + 1)"
proof -
  define y where "y = 1 / \<bar>x\<bar>"
  define z where "z = \<lceil>y\<rceil> - 1"
  define m where "m = floorlog 10 (nat z)"
  have x0: "0 < \<bar>x\<bar>" using assms by simp
  have y1: "1 < y" using assms x0 by (simp add: y_def)
  have y0: "0 < y" using y1 by simp
  have xy: "\<bar>x\<bar> = 1 / y" using x0 by (simp add: y_def)
  have "1 < \<lceil>y\<rceil>" using y1 by (simp add: less_ceiling_iff)
  then have z1: "1 \<le> z" by (simp add: z_def)
  have zy: "of_int z < y" unfolding z_def using ceiling_correct [of y] by simp
  have yz: "y \<le> of_int z + 1" unfolding z_def using ceiling_correct [of y] by simp
  have n: "0 < nat z" using z1 by simp
  have m: "0 < m" "10 ^ (m - 1) \<le> nat z" "nat z < 10 ^ m"
    unfolding m_def using digits_bounds [OF n] by auto
  have adj: "adjusted x = - int m"
    using assms by (simp add: adjusted_def y_def z_def m_def)
  have zn: "(of_nat (nat z) :: rat) = of_int z" using z1 by simp
  have zn1: "(of_nat (nat z + 1) :: rat) = of_int z + 1" using z1 by simp
  have "nat z + 1 \<le> 10 ^ m" using m(3) by linarith
  then have "of_nat (nat z + 1) \<le> (10::rat) ^ m"
    by (metis of_nat_le_iff of_nat_numeral of_nat_power)
  with yz zn1 have ym: "y \<le> 10 ^ m" by linarith
  have "(10::rat) ^ (m - 1) \<le> of_nat (nat z)"
    using m(2) by (metis of_nat_le_iff of_nat_numeral of_nat_power)
  with zy zn have my: "10 ^ (m - 1) < y" by linarith
  have "1 / (10::rat) ^ m \<le> 1 / y"
    using ym y0 by (simp add: frac_le)
  then show "10 powi adjusted x \<le> \<bar>x\<bar>"
    unfolding adj xy by (simp add: power_int_minus_divide)
  have e: "- int m + 1 = - int (m - 1)" using m(1) by simp
  have "1 / y < 1 / (10::rat) ^ (m - 1)"
    using my by (simp add: frac_less2)
  then show "\<bar>x\<bar> < 10 powi (adjusted x + 1)"
    unfolding adj xy e by (simp add: power_int_minus_divide)
qed

lemma adjusted_bounds:
  fixes x :: rat
  assumes "x \<noteq> 0"
  shows "10 powi adjusted x \<le> \<bar>x\<bar>" and "\<bar>x\<bar> < 10 powi (adjusted x + 1)"
  using adjusted_bounds_ge1 [of x] adjusted_bounds_lt1 [of x] assms
  by (cases "1 \<le> \<bar>x\<bar>"; simp)+


lemma adjusted_minus [simp]: "adjusted (- x) = adjusted x"
  by (simp add: adjusted_def)

lemma dec_round_0 [simp]: "dec_round 0 = 0"
  by (simp add: dec_round_def)

lemma dec_round_minus: "dec_round (- x) = - dec_round x"
  by (simp add: dec_round_def Let_def)

lemma dec_round_pos_eq:
  assumes "0 < x"
  shows "dec_round x =
    of_int (round_half_even (x / 10 powi (adjusted x - 27))) * 10 powi (adjusted x - 27)"
  using assms by (simp add: dec_round_def prec_def Let_def)

lemma quantum_split:
  "(10::rat) powi a = 10 ^ 27 * 10 powi (a - 27)"
  "(10::rat) powi (a + 1) = 10 ^ 28 * 10 powi (a - 27)"
proof -
  have "(10::rat) powi a = 10 powi (27 + (a - 27))" by simp
  also have "\<dots> = 10 powi 27 * 10 powi (a - 27)"
    by (subst power_int_add) auto
  finally show "(10::rat) powi a = 10 ^ 27 * 10 powi (a - 27)" by simp
  have e: "a + 1 = 28 + (a - 27)" by simp
  have "(10::rat) powi (a + 1) = 10 powi (28 + (a - 27))" unfolding e ..
  also have "\<dots> = 10 powi 28 * 10 powi (a - 27)"
    by (subst power_int_add) auto
  finally show "(10::rat) powi (a + 1) = 10 ^ 28 * 10 powi (a - 27)" by simp
qed

lemma dec_round_pos_bounds:
  assumes "0 < x"
  shows "10 powi adjusted x \<le> dec_round x" and "dec_round x \<le> 10 powi (adjusted x + 1)"
proof -
  define q :: rat where "q = 10 powi (adjusted x - 27)"
  have q: "0 < q" by (simp add: q_def)
  have x: "x \<noteq> 0" "\<bar>x\<bar> = x" using assms by auto
  have "10 powi adjusted x = 10 ^ 27 * q" "10 powi (adjusted x + 1) = 10 ^ 28 * q"
    unfolding q_def by (rule quantum_split)+
  with adjusted_bounds [OF x(1)] x(2)
  have lo: "10 ^ 27 * q \<le> x" and hi: "x < 10 ^ 28 * q"
    by linarith+
  have "of_int (10 ^ 27) \<le> x / q" using lo q by (simp add: pos_le_divide_eq)
  then have "round_half_even (of_int (10 ^ 27)) \<le> round_half_even (x / q)"
    by (rule round_half_even_mono)
  then have "(10 ^ 27 :: rat) \<le> of_int (round_half_even (x / q))"
    by (metis of_int_le_iff of_int_numeral of_int_power round_half_even_of_int)
  then have "10 ^ 27 * q \<le> of_int (round_half_even (x / q)) * q"
    using q by simp
  then show "10 powi adjusted x \<le> dec_round x"
    unfolding dec_round_pos_eq [OF assms] quantum_split(1) [of "adjusted x"] q_def .
  have "x / q \<le> of_int (10 ^ 28)" using hi q by (simp add: pos_divide_le_eq)
  then have "round_half_even (x / q) \<le> round_half_even (of_int (10 ^ 28))"
    by (rule round_half_even_mono)
  then have "of_int (round_half_even (x / q)) \<le> (10 ^ 28 :: rat)"
    by (metis of_int_le_iff of_int_numeral of_int_power round_half_even_of_int)
  then have "of_int (round_half_even (x / q)) * q \<le> 10 ^ 28 * q"
    using q by simp
  then show "dec_round x \<le> 10 powi (adjusted x + 1)"
    unfolding dec_round_pos_eq [OF assms] quantum_split(2) [of "adjusted x"] q_def .
qed

lemma dec_round_pos: "0 < x \<Longrightarrow> 0 < dec_round x"
proof -
  assume x: "0 < x"
  have "(0::rat) < 10 powi adjusted x" by simp
  with dec_round_pos_bounds(1) [OF x] show ?thesis by linarith
qed

lemma dec_round_mono_pos:
  assumes "0 < x" and "x \<le> y"
  shows "dec_round x \<le> dec_round y"
proof -
  have y: "0 < y" using assms by simp
  have nz: "x \<noteq> 0" "y \<noteq> 0" "\<bar>x\<bar> = x" "\<bar>y\<bar> = y" using assms by auto
  note bx = adjusted_bounds [OF nz(1)] and by' = adjusted_bounds [OF nz(2)]
  have le: "adjusted x \<le> adjusted y"
  proof (rule ccontr)
    assume "\<not> adjusted x \<le> adjusted y"
    then have "adjusted y + 1 \<le> adjusted x" by simp
    then have "(10::rat) powi (adjusted y + 1) \<le> 10 powi adjusted x"
      by (intro power_int_increasing) auto
    with bx(1) by'(2) nz assms(2) show False by linarith
  qed
  show ?thesis
  proof (cases "adjusted x = adjusted y")
    case True
    define q :: rat where "q = 10 powi (adjusted y - 27)"
    have q: "0 < q" by (simp add: q_def)
    have "x / q \<le> y / q" using assms(2) q by (simp add: divide_right_mono)
    then have "round_half_even (x / q) \<le> round_half_even (y / q)"
      by (rule round_half_even_mono)
    then have "of_int (round_half_even (x / q)) * q \<le> of_int (round_half_even (y / q)) * q"
      using q by simp
    then show ?thesis
      unfolding dec_round_pos_eq [OF assms(1)] dec_round_pos_eq [OF y] True q_def .
  next
    case False
    with le have "adjusted x + 1 \<le> adjusted y" by simp
    then have "(10::rat) powi (adjusted x + 1) \<le> 10 powi adjusted y"
      by (intro power_int_increasing) auto
    with dec_round_pos_bounds(2) [OF assms(1)] dec_round_pos_bounds(1) [OF y]
    show ?thesis by linarith
  qed
qed

lemma dec_round_mono:
  assumes "x \<le> y"
  shows "dec_round x \<le> dec_round y"
proof -
  consider "0 < x" | "x \<le> 0" "0 \<le> y" | "y < 0" by linarith
  then show ?thesis
  proof cases
    case 1
    then show ?thesis using assms by (rule dec_round_mono_pos)
  next
    case 2
    have "dec_round x \<le> 0"
    proof (cases "x = 0")
      case False
      with 2 have "0 < - x" by simp
      from dec_round_pos [OF this] show ?thesis by (simp add: dec_round_minus)
    qed simp
    moreover have "0 \<le> dec_round y"
    proof (cases "y = 0")
      case False
      with 2 have "0 < y" by simp
      from dec_round_pos [OF this] show ?thesis by simp
    qed simp
    ultimately show ?thesis by linarith
  next
    case 3
    then have "0 < - y" "- y \<le> - x" using assms by auto
    from dec_round_mono_pos [OF this] show ?thesis by (simp add: dec_round_minus)
  qed
qed

lemma dec_round_1 [simp]: "dec_round 1 = 1"
  by code_simp

lemma dec_round_nonneg: "0 \<le> x \<Longrightarrow> 0 \<le> dec_round x"
  using dec_round_mono [of 0 x] by simp

lemma dec_round_ge_1: "1 \<le> x \<Longrightarrow> 1 \<le> dec_round x"
  using dec_round_mono [of 1 x] by simp

lemma dec_round_le_1: "x \<le> 1 \<Longrightarrow> dec_round x \<le> 1"
  using dec_round_mono [of x 1] by simp

section \<open>Values that rounding leaves unchanged\<close>

lemma dec_round_exact_pos:
  assumes "0 < c" and "c < 10 ^ 28"
  shows "dec_round (of_int c * 10 powi e) = of_int c * 10 powi e"
proof -
  define x :: rat where "x = of_int c * 10 powi e"
  define a where "a = adjusted x"
  have x: "0 < x" unfolding x_def using assms(1) by simp
  then have nz: "x \<noteq> 0" and ab: "\<bar>x\<bar> = x" by auto
  have "of_int c < (10::rat) ^ 28" using assms(2)
    by (metis of_int_less_iff of_int_numeral of_int_power)
  then have "x < 10 ^ 28 * 10 powi e"
    unfolding x_def by (simp add: mult_strict_right_mono)
  also have "\<dots> = 10 powi 28 * 10 powi e" by simp
  also have "\<dots> = 10 powi (28 + e)" by (subst power_int_add) auto
  finally have hi: "x < 10 powi (28 + e)" .
  have "\<not> 28 + e \<le> a"
  proof
    assume "28 + e \<le> a"
    then have "(10::rat) powi (28 + e) \<le> 10 powi a"
      by (intro power_int_increasing) auto
    with hi adjusted_bounds(1) [OF nz] ab show False unfolding a_def by linarith
  qed
  then have k: "0 \<le> e - a + 27" by simp
  define k where "k = nat (e - a + 27)"
  have e: "e = int k + (a - 27)" using k by (simp add: k_def)
  have "(10::rat) powi e = 10 powi int k * 10 powi (a - 27)"
    by (subst e, subst power_int_add) auto
  then have pe: "(10::rat) powi e = 10 ^ k * 10 powi (a - 27)" by simp
  have "x / 10 powi (a - 27) = of_int c * 10 ^ k"
    unfolding x_def pe by simp
  also have "\<dots> = of_int (c * 10 ^ k)" by simp
  finally have "round_half_even (x / 10 powi (a - 27)) = c * 10 ^ k"
    by (simp only: round_half_even_of_int)
  then have "dec_round x = of_int (c * 10 ^ k) * 10 powi (a - 27)"
    unfolding dec_round_pos_eq [OF x] a_def by simp
  also have "\<dots> = x" unfolding x_def pe by simp
  finally show ?thesis unfolding x_def .
qed

lemma dec_round_exact:
  assumes "\<bar>c\<bar> < 10 ^ 28"
  shows "dec_round (of_int c * 10 powi e) = of_int c * 10 powi e"
proof -
  consider "0 < c" | "c = 0" | "c < 0" by linarith
  then show ?thesis
  proof cases
    case 1
    with assms show ?thesis by (intro dec_round_exact_pos) auto
  next
    case 2
    then show ?thesis by simp
  next
    case 3
    with assms have "dec_round (of_int (- c) * 10 powi e) = of_int (- c) * 10 powi e"
      by (intro dec_round_exact_pos) auto
    then have "dec_round (- (of_int c * 10 powi e)) = - (of_int c * 10 powi e)" by simp
    then show ?thesis by (simp only: dec_round_minus neg_equal_iff_equal)
  qed
qed

lemma dec_round_numeral [simp]:
  "(numeral n :: int) < 10 ^ 28 \<Longrightarrow> dec_round (numeral n) = numeral n"
  using dec_round_exact [of "numeral n" 0] by simp

lemma dec_round_frac:
  "\<bar>c\<bar> < 10 ^ 28 \<Longrightarrow> dec_round (of_int c / 10 ^ k) = of_int c / 10 ^ k"
  using dec_round_exact [of c "- int k"] by (simp add: power_int_minus_divide)




section \<open>Profitability with and without fees\<close>

lemma side_ok_buy_sell: "proposal_ok p \<Longrightarrow> side_ok (buy_side p) \<and> side_ok (sell_side p)"
  by (simp add: proposal_ok_def buy_side_def sell_side_def)

lemma profit_pct_Inr:
  assumes "dec_mul (dec_mul (amount (buy_side p)) (order_price (buy_side p)))
             (if f then dec_add 1 (fee (buy_side p)) else 1) \<noteq> 0"
  shows "profit_pct p f =
    Inr (dec_sub (dec_round
      (dec_mul (dec_mul (amount (sell_side p)) (order_price (sell_side p)))
          (if f then dec_sub 1 (fee (sell_side p)) else 1) /
       dec_mul (dec_mul (amount (buy_side p)) (order_price (buy_side p)))
          (if f then dec_add 1 (fee (buy_side p)) else 1))) 1)"
  using assms by (simp add: profit_pct_def dec_div_def Let_def)

lemmas profit_eval =
  profit_pct_def quote_at_def buy_side_def sell_side_def dec_mul_def dec_add_def dec_sub_def
  dec_div_def

lemma profit_pct_defined:
  assumes "0 < a" and "0 < bp" and "0 \<le> f"
  shows "\<exists>v. profit_pct (quote_at b s a bp sp f) True = Inr v"
proof -
  have "0 < dec_round (a * bp)" using assms by (intro dec_round_pos) simp
  moreover have "1 \<le> dec_round (1 + f)" using assms by (intro dec_round_ge_1) simp
  ultimately have "0 < dec_round (a * bp) * dec_round (1 + f)"
    by (intro mult_pos_pos) simp_all
  then have "0 < dec_round (dec_round (a * bp) * dec_round (1 + f))"
    by (rule dec_round_pos)
  then show ?thesis
    by (simp add: profit_eval)
qed

text \<open>
  Claim C7. For every proposal whose two sides have positive amounts, positive prices and
  fee rates in \<open>[0, 1)\<close>, both profitabilities are defined and the one that counts the
  fees is at most the one that does not: \<open>profit_pct(p, True) \<le> profit_pct(p, False)\<close>.
\<close>

theorem profit_pct_fee_le:
  assumes "proposal_ok p"
  shows "\<exists>a b. profit_pct p True = Inr a \<and> profit_pct p False = Inr b \<and> a \<le> b"
proof -
  define X where "X = dec_mul (amount (buy_side p)) (order_price (buy_side p))"
  define Y where "Y = dec_mul (amount (sell_side p)) (order_price (sell_side p))"
  define oT where "oT = dec_mul X (dec_add 1 (fee (buy_side p)))"
  define oF where "oF = dec_mul X 1"
  define pT where "pT = dec_mul Y (dec_sub 1 (fee (sell_side p)))"
  define pF where "pF = dec_mul Y 1"
  from side_ok_buy_sell [OF assms]
  have b: "0 < amount (buy_side p)" "0 < order_price (buy_side p)" "0 \<le> fee (buy_side p)"
    and s: "0 < amount (sell_side p)" "0 < order_price (sell_side p)" "fee (sell_side p) < 1"
      "0 \<le> fee (sell_side p)"
    by (simp_all add: side_ok_def)
  have X: "0 < X" unfolding X_def dec_mul_def using b by (intro dec_round_pos) simp
  have Y: "0 < Y" unfolding Y_def dec_mul_def using s by (intro dec_round_pos) simp
  have up: "1 \<le> dec_add 1 (fee (buy_side p))"
    unfolding dec_add_def using b by (intro dec_round_ge_1) simp
  have dn: "dec_sub 1 (fee (sell_side p)) \<le> 1"
    unfolding dec_sub_def using s by (intro dec_round_le_1) simp
  have oF: "0 < oF" unfolding oF_def dec_mul_def using X by (intro dec_round_pos) simp
  have "X * 1 \<le> X * dec_add 1 (fee (buy_side p))"
    using X up by (intro mult_left_mono) simp_all
  then have o: "oF \<le> oT" unfolding oF_def oT_def dec_mul_def by (rule dec_round_mono)
  have pF: "0 < pF" unfolding pF_def dec_mul_def using Y by (intro dec_round_pos) simp
  have "Y * dec_sub 1 (fee (sell_side p)) \<le> Y * 1"
    using Y dn by (intro mult_left_mono) simp_all
  then have pr: "pT \<le> pF" unfolding pF_def pT_def dec_mul_def by (rule dec_round_mono)
  have "pT / oT \<le> pF / oF"
    using pF pr oF o by (intro frac_le) simp_all
  then have "dec_round (pT / oT) \<le> dec_round (pF / oF)" by (rule dec_round_mono)
  then have "dec_round (pT / oT) - 1 \<le> dec_round (pF / oF) - 1" by simp
  then have le: "dec_sub (dec_round (pT / oT)) 1 \<le> dec_sub (dec_round (pF / oF)) 1"
    unfolding dec_sub_def by (rule dec_round_mono)
  have oT: "oT \<noteq> 0" using oF o by simp
  have "profit_pct p True = Inr (dec_sub (dec_round (pT / oT)) 1)"
    using oT profit_pct_Inr [of p True]
    by (simp add: oT_def pT_def X_def Y_def)
  moreover have "profit_pct p False = Inr (dec_sub (dec_round (pF / oF)) 1)"
    using oF profit_pct_Inr [of p False]
    by (simp add: oF_def pF_def X_def Y_def)
  ultimately show ?thesis using le by blast
qed

theorem profit_pct_fee_le_witness:
  "proposal_ok (quote_at binance uniswap 1 100 101 (1 / 1000)) \<and>
   (\<exists>a b. profit_pct (quote_at binance uniswap 1 100 101 (1 / 1000)) True = Inr a \<and>
          profit_pct (quote_at binance uniswap 1 100 101 (1 / 1000)) False = Inr b \<and> a \<le> b)"
proof -
  have ok: "proposal_ok (quote_at binance uniswap 1 100 101 (1 / 1000))"
    by (simp add: proposal_ok_def side_ok_def quote_at_def)
  from ok profit_pct_fee_le [OF ok] show ?thesis by blast
qed

section \<open>The sweep over the sample sizes\<close>

lemma find_best_size_for_direction_unfold:
  "find_best_size_for_direction q cfg b s w =
     (case find_best_size_loop q cfg b s (step_size_of cfg) [0..<num_steps] (- 1, None) w of
        (Inl e, w') \<Rightarrow> (Inl e, w')
      | (Inr best, w') \<Rightarrow> (Inr (finish_sweep best), w'))"
  by (simp add: find_best_size_for_direction_def dec_div_def num_steps_def step_size_of_def
        split: prod.splits sum.splits)

lemma loop_append:
  "find_best_size_loop q cfg b s st (xs @ ys) best w =
     (case find_best_size_loop q cfg b s st xs best w of
        (Inl e, w') \<Rightarrow> (Inl e, w')
      | (Inr best', w') \<Rightarrow> find_best_size_loop q cfg b s st ys best' w')"
  by (induction xs arbitrary: best w)
    (auto simp: Let_def split: prod.splits sum.splits list.splits)

lemma loop_success:
  assumes "\<forall>i\<in>set xs. \<forall>w. \<exists>rest.
             fst (q w b s (dec_add (min_order_amount cfg) (dec_mul (of_nat i) st))) = Inr (P i # rest)"
    and "\<forall>i\<in>set xs. profit_pct (P i) True = Inr (f i)"
  shows "\<exists>w'. find_best_size_loop q cfg b s st xs best w =
    (Inr (foldl (\<lambda>best i. if fst best < f i then (f i, Some (P i)) else best) best xs), w')"
  using assms
proof (induction xs arbitrary: best w)
  case Nil
  then show ?case by simp
next
  case (Cons i xs)
  from Cons.prems(1) have "\<exists>rest.
    fst (q w b s (dec_add (min_order_amount cfg) (dec_mul (of_nat i) st))) = Inr (P i # rest)"
    by simp
  then obtain rest where
    "fst (q w b s (dec_add (min_order_amount cfg) (dec_mul (of_nat i) st))) = Inr (P i # rest)"
    by blast
  then obtain w1 where
    q: "q w b s (dec_add (min_order_amount cfg) (dec_mul (of_nat i) st)) = (Inr (P i # rest), w1)"
    by (cases "q w b s (dec_add (min_order_amount cfg) (dec_mul (of_nat i) st))") auto
  have f: "profit_pct (P i) True = Inr (f i)" using Cons.prems(2) by simp
  from Cons.IH [of "if fst best < f i then (f i, Some (P i)) else best" w1] Cons.prems
  show ?case by (simp add: q f)
qed


lemma fold_best_le:
  "\<forall>i\<in>set xs. f i \<le> c \<Longrightarrow> fst best \<le> c \<Longrightarrow>
   fst (foldl (\<lambda>best i. if fst best < f i then (f i, Some (P i)) else best) best xs) \<le> (c::rat)"
  by (induction xs arbitrary: best) auto

lemma fold_best_less:
  "\<forall>i\<in>set xs. f i < c \<Longrightarrow> fst best < c \<Longrightarrow>
   fst (foldl (\<lambda>best i. if fst best < f i then (f i, Some (P i)) else best) best xs) < (c::rat)"
  by (induction xs arbitrary: best) auto

lemma fold_best_keep:
  "\<forall>i\<in>set xs. f i \<le> fst best \<Longrightarrow>
   foldl (\<lambda>best i. if fst best < f i then (f i, Some (P i)) else best) best xs = best"
  for f :: "nat \<Rightarrow> rat"
  by (induction xs arbitrary: best) auto

lemma fold_best_first_max:
  fixes f :: "nat \<Rightarrow> rat"
  assumes "\<forall>i\<in>set pre. f i < f j" and "\<forall>i\<in>set post. f i \<le> f j" and "fst best < f j"
  shows "foldl (\<lambda>best i. if fst best < f i then (f i, Some (P i)) else best) best
           (pre @ j # post) = (f j, Some (P j))"
proof -
  let ?g = "\<lambda>best i. if fst best < f i then (f i, Some (P i)) else best"
  have "fst (foldl ?g best pre) < f j"
    using fold_best_less [where xs = pre and f = f and c = "f j" and best = best and P = P]
      assms(1,3) by simp
  then have "foldl ?g best (pre @ [j]) = (f j, Some (P j))" by simp
  moreover have "foldl ?g (f j, Some (P j)) post = (f j, Some (P j))"
    using fold_best_keep [where xs = post and f = f and best = "(f j, Some (P j))" and P = P]
      assms(2) by simp
  ultimately show ?thesis by simp
qed

lemma first_max:
  fixes f :: "nat \<Rightarrow> rat"
  assumes "0 < n"
  shows "\<exists>j<n. (\<forall>i<n. f i \<le> f j) \<and> (\<forall>i<j. f i < f j)"
  using assms
proof (induction n)
  case 0
  then show ?case by simp
next
  case (Suc n)
  show ?case
  proof (cases "n = 0")
    case True
    then show ?thesis by auto
  next
    case False
    with Suc.IH obtain j where j: "j < n" "\<forall>i<n. f i \<le> f j" "\<forall>i<j. f i < f j" by auto
    show ?thesis
    proof (cases "f j < f n")
      case True
      with j(2) have "\<forall>i<n. f i < f n" by fastforce
      then have "(\<forall>i<Suc n. f i \<le> f n) \<and> (\<forall>i<n. f i < f n)"
        by (auto simp: less_Suc_eq)
      then show ?thesis by blast
    next
      case False
      with j have "j < Suc n \<and> (\<forall>i<Suc n. f i \<le> f j) \<and> (\<forall>i<j. f i < f j)"
        by (auto simp: less_Suc_eq)
      then show ?thesis by blast
    qed
  qed
qed

lemma sweep_success:
  assumes "\<forall>i<num_steps. \<forall>w. \<exists>rest. fst (q w b s (sample_size cfg i)) = Inr (P i # rest)"
    and "\<forall>i<num_steps. profit_pct (P i) True = Inr (f i)"
  shows "fst (find_best_size_for_direction q cfg b s w) =
    Inr (finish_sweep (foldl (\<lambda>best i. if fst best < f i then (f i, Some (P i)) else best)
           (- 1, None) [0..<num_steps]))"
proof -
  from loop_success [of "[0..<num_steps]" q b s cfg "step_size_of cfg" P f "(- 1, None)" w] assms
  obtain w' where "find_best_size_loop q cfg b s (step_size_of cfg) [0..<num_steps] (- 1, None) w =
    (Inr (foldl (\<lambda>best i. if fst best < f i then (f i, Some (P i)) else best)
           (- 1, None) [0..<num_steps]), w')"
    by (auto simp: sample_size_def)
  then show ?thesis by (simp add: find_best_size_for_direction_unfold)
qed

lemma sweep_best:
  assumes "\<forall>i<num_steps. \<forall>w. \<exists>rest. fst (q w b s (sample_size cfg i)) = Inr (P i # rest)"
    and "\<forall>i<num_steps. profit_pct (P i) True = Inr (f i)"
  shows "(j < num_steps \<and> 0 < f j \<and> (\<forall>i<num_steps. f i \<le> f j) \<and> (\<forall>i<j. f i < f j)
            \<longrightarrow> fst (find_best_size_for_direction q cfg b s w) = Inr (Some (P j, f j)))"
    and "(fst (find_best_size_for_direction q cfg b s w) = Inr None) = (\<forall>i<num_steps. f i \<le> 0)"
proof -
  let ?g = "\<lambda>best i. if fst best < f i then (f i, Some (P i)) else best"
  have res: "fst (find_best_size_for_direction q cfg b s w) =
    Inr (finish_sweep (foldl ?g (- 1, None) [0..<num_steps]))"
    using assms by (rule sweep_success)
  have some: "fst (find_best_size_for_direction q cfg b s w) = Inr (Some (P j, f j))"
    if j: "j < num_steps" "0 < f j" "\<forall>i<num_steps. f i \<le> f j" "\<forall>i<j. f i < f j" for j
  proof -
    have split: "[0..<num_steps] = [0..<j] @ j # [Suc j..<num_steps]"
      using j(1) upt_add_eq_append [of 0 j "num_steps - j"]
      by (simp add: upt_conv_Cons)
    have "foldl ?g (- 1, None) ([0..<j] @ j # [Suc j..<num_steps]) = (f j, Some (P j))"
      using j fold_best_first_max [where pre = "[0..<j]" and post = "[Suc j..<num_steps]"
          and f = f and j = j and best = "(- 1, None)" and P = P]
      by auto
    with res j(2) show ?thesis by (simp add: split [symmetric] finish_sweep_def)
  qed
  then show "(j < num_steps \<and> 0 < f j \<and> (\<forall>i<num_steps. f i \<le> f j) \<and> (\<forall>i<j. f i < f j)
            \<longrightarrow> fst (find_best_size_for_direction q cfg b s w) = Inr (Some (P j, f j)))"
    by blast
  show "(fst (find_best_size_for_direction q cfg b s w) = Inr None) = (\<forall>i<num_steps. f i \<le> 0)"
  proof
    assume none: "fst (find_best_size_for_direction q cfg b s w) = Inr None"
    have "0 < num_steps" by (simp add: num_steps_def)
    from first_max [OF this, of f] obtain j where
      j: "j < num_steps" "\<forall>i<num_steps. f i \<le> f j" "\<forall>i<j. f i < f j" by blast
    have "\<not> 0 < f j"
    proof
      assume "0 < f j"
      from some [OF j(1) this j(2,3)] none show False by simp
    qed
    with j(2) show "\<forall>i<num_steps. f i \<le> 0" by fastforce
  next
    assume "\<forall>i<num_steps. f i \<le> 0"
    then have "fst (foldl ?g (- 1, None) [0..<num_steps]) \<le> 0"
      using fold_best_le [where xs = "[0..<num_steps]" and f = f and c = 0
          and best = "(- 1, None)" and P = P]
      by auto
    with res show "fst (find_best_size_for_direction q cfg b s w) = Inr None"
      by (simp add: finish_sweep_def split: option.splits)
  qed
qed

lemma sweep_constant:
  assumes "\<forall>w a. fst (q w b s a) = Inr [p]" and "profit_pct p True = Inr v"
  shows "fst (find_best_size_for_direction q cfg b s w) = Inr (if 0 < v then Some (p, v) else None)"
proof (cases "0 < v")
  case True
  have "0 < num_steps \<and> 0 < v \<and> (\<forall>i<num_steps. v \<le> v) \<and> (\<forall>i<(0::nat). v < v)"
    using True by (simp add: num_steps_def)
  with sweep_best(1) [where q = q and b = b and s = s and cfg = cfg and P = "\<lambda>i. p"
      and f = "\<lambda>i. v" and j = 0 and w = w] assms True
  show ?thesis by simp
next
  case False
  with sweep_best(2) [where q = q and b = b and s = s and cfg = cfg and P = "\<lambda>i. p"
      and f = "\<lambda>i. v" and w = w] assms
  show ?thesis by simp
qed

lemma sweep_first_failure:
  assumes "k < num_steps"
    and "\<forall>w. fst (q w b s (sample_size cfg k)) = Inl e"
    and "\<forall>i<k. \<forall>w. \<exists>rest. fst (q w b s (sample_size cfg i)) = Inr (P i # rest)"
    and "\<forall>i<k. \<exists>v. profit_pct (P i) True = Inr v"
  shows "fst (find_best_size_for_direction q cfg b s w) = Inl e"
proof -
  from assms(4) obtain f where f: "\<forall>i<k. profit_pct (P i) True = Inr (f i)" by metis
  have split: "[0..<num_steps] = [0..<k] @ k # [Suc k..<num_steps]"
    using assms(1) upt_add_eq_append [of 0 k "num_steps - k"]
    by (simp add: upt_conv_Cons)
  have "\<exists>w'. find_best_size_loop q cfg b s (step_size_of cfg) [0..<k] (- 1, None) w =
    (Inr (foldl (\<lambda>best i. if fst best < f i then (f i, Some (P i)) else best)
           (- 1, None) [0..<k]), w')"
    using assms(3) f by (intro loop_success) (simp_all add: sample_size_def)
  then have "\<exists>best' w'.
    find_best_size_loop q cfg b s (step_size_of cfg) [0..<k] (- 1, None) w = (Inr best', w')"
    by blast
  then obtain best' w' where pre:
    "find_best_size_loop q cfg b s (step_size_of cfg) [0..<k] (- 1, None) w = (Inr best', w')"
    by blast
  obtain x w'' where call: "q w' b s (sample_size cfg k) = (x, w'')"
    by (cases "q w' b s (sample_size cfg k)") auto
  with assms(2) have x: "x = Inl e" by (metis fst_conv)
  have "fst (find_best_size_loop q cfg b s (step_size_of cfg) (k # [Suc k..<num_steps])
              best' w') = Inl e"
    using call x by (simp add: sample_size_def)
  then have "fst (find_best_size_loop q cfg b s (step_size_of cfg) [0..<num_steps]
                    (- 1, None) w) = Inl e"
    unfolding split loop_append pre by simp
  then show ?thesis
    by (auto simp: find_best_size_for_direction_unfold split: prod.splits sum.splits)
qed

lemma recording_call:
  "recording q (w, asked) b s a = (fst (q w b s a), (snd (q w b s a), asked @ [a]))"
  by (simp add: recording_def split: prod.splits)

lemma loop_asked:
  assumes "fst (find_best_size_loop (recording q) cfg b s st xs best (w, asked)) = Inr best'"
  shows "snd (snd (find_best_size_loop (recording q) cfg b s st xs best (w, asked))) =
    asked @ map (\<lambda>i. dec_add (min_order_amount cfg) (dec_mul (of_nat i) st)) xs"
  using assms
proof (induction xs arbitrary: best w asked)
  case Nil
  then show ?case by simp
next
  case (Cons i xs)
  define a where "a = dec_add (min_order_amount cfg) (dec_mul (of_nat i) st)"
  from Cons.prems obtain p rest pct where
    ok: "fst (q w b s a) = Inr (p # rest)" "profit_pct p True = Inr pct"
    by (auto simp: recording_call a_def Let_def split: sum.splits list.splits)
  have step: "find_best_size_loop (recording q) cfg b s st (i # xs) best (w, asked) =
      find_best_size_loop (recording q) cfg b s st xs
        (if fst best < pct then (pct, Some p) else best) (snd (q w b s a), asked @ [a])"
    using ok by (simp add: recording_call a_def [symmetric] Let_def)
  from Cons.IH [of "if fst best < pct then (pct, Some p) else best" "snd (q w b s a)"
      "asked @ [a]"] Cons.prems
  show ?case unfolding step by (simp add: a_def)
qed

lemma sweep_asked:
  assumes "fst (find_best_size_for_direction (recording q) cfg b s (w, [])) = Inr r"
  shows "snd (snd (find_best_size_for_direction (recording q) cfg b s (w, []))) =
    map (sample_size cfg) [0..<num_steps]"
proof -
  obtain x v where run: "find_best_size_loop (recording q) cfg b s (step_size_of cfg)
      [0..<num_steps] (- 1, None) (w, []) = (x, v)"
    by (cases "find_best_size_loop (recording q) cfg b s (step_size_of cfg)
      [0..<num_steps] (- 1, None) (w, [])") auto
  with assms obtain best' where x: "x = Inr best'"
    by (cases x) (auto simp: find_best_size_for_direction_unfold)
  from loop_asked [of q cfg b s "step_size_of cfg" "[0..<num_steps]" "(- 1, None)" w "[]" best']
    run x
  have "snd v = map (sample_size cfg) [0..<num_steps]"
    by (simp add: sample_size_def [abs_def])
  with run x show ?thesis
    by (simp add: find_best_size_for_direction_unfold)
qed

lemma sample_0: "sample_size cfg 0 = dec_round (min_order_amount cfg)"
  by (simp add: sample_size_def dec_add_def dec_mul_def)

lemma sample_size_mono:
  assumes "0 \<le> step_size_of cfg" and "i \<le> j"
  shows "sample_size cfg i \<le> sample_size cfg j"
proof -
  have "of_nat i * step_size_of cfg \<le> of_nat j * step_size_of cfg"
    using assms by (intro mult_right_mono) simp_all
  then have "dec_mul (of_nat i) (step_size_of cfg) \<le> dec_mul (of_nat j) (step_size_of cfg)"
    unfolding dec_mul_def by (rule dec_round_mono)
  then show ?thesis
    unfolding sample_size_def dec_add_def by (intro dec_round_mono) simp
qed


section \<open>The example configurations and venues\<close>

lemma round_99_100: "dec_round (99 / 100) = 99 / 100"
  using dec_round_frac [of 99 2] by simp

lemma round_1_100: "dec_round (1 / 100) = 1 / 100"
  using dec_round_frac [of 1 2] by simp

lemma round_step_default: "dec_round (99 / 1900) = 5210526315789473684210526316 / 10 ^ 29"
  by code_simp

lemma round_19_steps_default:
  "dec_round (19 * (5210526315789473684210526316 / 10 ^ 29)) = 99 / 100"
  by code_simp

lemma round_18_steps_default:
  "dec_round (18 * (5210526315789473684210526316 / 10 ^ 29)) =
     9378947368421052631578947369 / 10 ^ 28"
  by code_simp

lemma step_default: "step_size_of default_config = 5210526315789473684210526316 / 10 ^ 29"
  by (simp add: step_size_of_def default_config_def dec_sub_def num_steps_def round_99_100
      round_step_default)

lemma sample_0_default: "sample_size default_config 0 = 1 / 100"
  by (simp add: sample_size_def dec_add_def dec_mul_def default_config_def round_1_100)

lemma sample_18_default: "sample_size default_config 18 = 9478947368421052631578947369 / 10 ^ 28"
proof -
  have "dec_mul (of_nat 18) (step_size_of default_config) = 9378947368421052631578947369 / 10 ^ 28"
    unfolding dec_mul_def step_default of_nat_numeral by (rule round_18_steps_default)
  then have "sample_size default_config 18 =
      dec_add (min_order_amount default_config) (9378947368421052631578947369 / 10 ^ 28)"
    by (simp only: sample_size_def)
  also have "\<dots> = dec_round (9478947368421052631578947369 / 10 ^ 28)"
    by (simp add: dec_add_def default_config_def)
  also have "\<dots> = 9478947368421052631578947369 / 10 ^ 28"
    using dec_round_frac [of 9478947368421052631578947369 28] by simp
  finally show ?thesis .
qed

lemma sample_19_default: "sample_size default_config 19 = 1"
proof -
  have "dec_mul (of_nat 19) (step_size_of default_config) = 99 / 100"
    unfolding dec_mul_def step_default of_nat_numeral by (rule round_19_steps_default)
  then have "sample_size default_config 19 = dec_add (min_order_amount default_config) (99 / 100)"
    by (simp only: sample_size_def)
  then show ?thesis by (simp add: dec_add_def default_config_def)
qed

lemma samples_default_range:
  assumes "i < 19"
  shows "0 < sample_size default_config i" and "sample_size default_config i < 1"
proof -
  have st: "0 \<le> step_size_of default_config" by (simp add: step_default)
  from assms have "sample_size default_config 0 \<le> sample_size default_config i"
    "sample_size default_config i \<le> sample_size default_config 18"
    by (auto intro!: sample_size_mono [OF st])
  then show "0 < sample_size default_config i" "sample_size default_config i < 1"
    by (simp_all add: sample_0_default sample_18_default)
qed


lemma round_3_100: "dec_round (3 / 100) = 3 / 100"
  using dec_round_frac [of 3 2] by simp

lemma round_step_narrow: "dec_round (3 / 1900) = 1578947368421052631578947368 / 10 ^ 30"
  by code_simp

lemma round_19_steps_narrow:
  "dec_round (19 * (1578947368421052631578947368 / 10 ^ 30)) =
     2999999999999999999999999999 / 10 ^ 29"
  by code_simp

lemma step_narrow: "step_size_of narrow_config = 1578947368421052631578947368 / 10 ^ 30"
  by (simp add: step_size_of_def narrow_config_def default_config_def dec_sub_def num_steps_def
      round_3_100 round_step_narrow)

lemma sample_19_narrow: "sample_size narrow_config 19 = 3999999999999999999999999999 / 10 ^ 29"
proof -
  have "dec_mul (of_nat 19) (step_size_of narrow_config) = 2999999999999999999999999999 / 10 ^ 29"
    unfolding dec_mul_def step_narrow of_nat_numeral by (rule round_19_steps_narrow)
  then have "sample_size narrow_config 19 =
      dec_add (min_order_amount narrow_config) (2999999999999999999999999999 / 10 ^ 29)"
    by (simp only: sample_size_def)
  also have "\<dots> = dec_round (3999999999999999999999999999 / 10 ^ 29)"
    by (simp add: dec_add_def narrow_config_def default_config_def)
  also have "\<dots> = 3999999999999999999999999999 / 10 ^ 29"
    using dec_round_frac [of 3999999999999999999999999999 29] by simp
  finally show ?thesis .
qed

lemma round_1008: "dec_round (126 / 125) = 126 / 125"
  using dec_round_frac [of 1008 3] by simp

lemma round_8: "dec_round (1 / 125) = 1 / 125"
  using dec_round_frac [of 8 3] by simp

lemma round_1005: "dec_round (201 / 200) = 201 / 200"
  using dec_round_frac [of 1005 3] by simp

lemma round_5: "dec_round (1 / 200) = 1 / 200"
  using dec_round_frac [of 5 3] by simp

lemma round_1008_100: "dec_round (252 / 25) = 252 / 25"
  using dec_round_frac [of 1008 2] by simp



lemma profit_1008: "profit_pct (quote_at b s 1 1000 1008 0) True = Inr (1 / 125)"
  by (simp add: round_1008 round_8 profit_eval)

lemma profit_1005: "profit_pct (quote_at b s 1 1000 1005 0) True = Inr (1 / 200)"
  by (simp add: round_1005 round_5 profit_eval)

lemma profit_1000: "profit_pct (quote_at b s 1 1000 1000 0) True = Inr 0"
  by (simp add: profit_eval)

lemma profit_1008_small: "profit_pct (quote_at b s (1 / 100) 1000 1008 0) True = Inr (1 / 125)"
  by (simp add: round_1008_100 round_1008 round_8 profit_eval)


lemma unit_world: "x = (fst x, ())" for x :: "'a \<times> unit"
  by (cases x) simp

lemma two_way_sweep_1:
  "find_best_size_for_direction two_way_venue cfg binance uniswap () =
     (Inr (Some (quote_at binance uniswap 1 1000 1008 0, 1 / 125)), ())"
proof -
  have "fst (find_best_size_for_direction two_way_venue cfg binance uniswap ()) =
    Inr (if 0 < (1 / 125 :: rat) then Some (quote_at binance uniswap 1 1000 1008 0, 1 / 125)
         else None)"
    by (rule sweep_constant) (simp_all add: two_way_venue_def uniswap_def profit_1008)
  then show ?thesis
    by (subst unit_world) simp
qed

lemma two_way_sweep_2:
  "find_best_size_for_direction two_way_venue cfg uniswap binance () =
     (Inr (Some (quote_at uniswap binance 1 1000 1005 0, 1 / 200)), ())"
proof -
  have "fst (find_best_size_for_direction two_way_venue cfg uniswap binance ()) =
    Inr (if 0 < (1 / 200 :: rat) then Some (quote_at uniswap binance 1 1000 1005 0, 1 / 200)
         else None)"
    by (rule sweep_constant) (simp_all add: two_way_venue_def binance_def profit_1005)
  then show ?thesis
    by (subst unit_world) simp
qed

lemma flat_sweep:
  "find_best_size_for_direction flat_venue cfg b s () = (Inr None, ())"
proof -
  have "fst (find_best_size_for_direction flat_venue cfg b s ()) =
    Inr (if 0 < (0 :: rat) then Some (quote_at b s 1 1000 1000 0, 0) else None)"
    by (rule sweep_constant) (simp_all add: flat_venue_def profit_1000)
  then show ?thesis
    by (subst unit_world) simp
qed

lemma two_way_optimal:
  "find_optimal_arb_opportunity two_way_venue (controller_init cfg example_connectors) () =
     (Inr (Some (quote_at binance uniswap 1 1000 1008 0, 1 / 125)), ())"
  by (simp add: find_optimal_arb_opportunity_def controller_init_def example_connectors_def
      two_way_sweep_1 two_way_sweep_2 select_opportunity_def)

lemma capped_venue_fails_19:
  "\<forall>w. fst (capped_venue w binance uniswap (sample_size default_config 19)) =
      Inl InsufficientLiquidity"
  by (simp add: capped_venue_def sample_19_default)

lemma capped_venue_quotes_before_19:
  "\<forall>i<19. \<forall>w. \<exists>rest. fst (capped_venue w binance uniswap (sample_size default_config i)) =
      Inr (quote_at binance uniswap (sample_size default_config i) 1000 1008 0 # rest)"
  using samples_default_range(2) by (simp add: capped_venue_def)

lemma capped_venue_profit_before_19:
  "\<forall>i<19. \<exists>v. profit_pct
      (quote_at binance uniswap (sample_size default_config i) 1000 1008 0) True = Inr v"
  using samples_default_range(1) by (auto intro: profit_pct_defined)

lemma capped_venue_run:
  "fst (find_best_size_for_direction capped_venue default_config binance uniswap w) =
     Inl InsufficientLiquidity"
proof (rule sweep_first_failure [where k = 19
      and P = "\<lambda>i. quote_at binance uniswap (sample_size default_config i) 1000 1008 0"])
  show "19 < num_steps" by (simp add: num_steps_def)
qed (fact capped_venue_fails_19 capped_venue_quotes_before_19 capped_venue_profit_before_19)+

section \<open>The sample sizes of a sweep\<close>

text \<open>
  Claim C3, as the code has it. A sweep that no exception ends asks for exactly
  \<^verbatim>\<open>num_steps\<close> = 20 order amounts, in the order of the index, and the amount of index
  \<open>i\<close> is \<^verbatim>\<open>min_order_amount + i * step_size\<close> with
  \<^verbatim>\<open>step_size = (max_order_amount - min_order_amount) / 19\<close>, every operation rounded to
  28 significant digits. Sample 0 is the minimum, rounded. For the minimum 0.01 and the
  maximum 1.0, sample 0 is 0.01 and sample 19 is 1.0 exactly.
\<close>

theorem find_best_size_for_direction_samples:
  assumes "fst (find_best_size_for_direction (recording q) cfg b s (w, [])) = Inr r"
  shows "snd (snd (find_best_size_for_direction (recording q) cfg b s (w, []))) =
           map (sample_size cfg) [0..<num_steps] \<and>
         length (snd (snd (find_best_size_for_direction (recording q) cfg b s (w, [])))) = 20 \<and>
         sample_size cfg 0 = dec_round (min_order_amount cfg) \<and>
         min_order_amount default_config = 1 / 100 \<and>
         max_order_amount default_config = 1 \<and>
         sample_size default_config 0 = 1 / 100 \<and>
         sample_size default_config 19 = 1"
proof -
  have "min_order_amount default_config = 1 / 100" "max_order_amount default_config = 1"
    by (simp_all add: default_config_def)
  moreover have "length (map (sample_size cfg) [0..<num_steps]) = 20"
    by (simp add: num_steps_def)
  ultimately show ?thesis
    using sweep_asked [OF assms] sample_0 [of cfg] sample_0_default sample_19_default
    by (simp only: simp_thms)
qed

theorem find_best_size_for_direction_samples_witness:
  "fst (find_best_size_for_direction (recording flat_venue) default_config binance uniswap
          ((), [])) = Inr None \<and>
   snd (snd (find_best_size_for_direction (recording flat_venue) default_config binance uniswap
          ((), []))) = map (sample_size default_config) [0..<num_steps] \<and>
   sample_size default_config 19 = 1"
proof -
  have 1: "fst (find_best_size_for_direction (recording flat_venue) default_config binance
      uniswap ((), [])) = Inr (if 0 < (0::rat) then Some (quote_at binance uniswap 1 1000 1000 0, 0)
        else None)"
    by (rule sweep_constant)
      (simp_all add: recording_def flat_venue_def profit_1000 split: prod.splits)
  then have 2: "fst (find_best_size_for_direction (recording flat_venue) default_config binance
      uniswap ((), [])) = Inr None"
    by simp
  from find_best_size_for_direction_samples [OF 2] 2 show ?thesis by simp
qed

theorem sample_endpoints_counterexample:
  "min_order_amount narrow_config = 1 / 100 \<and> max_order_amount narrow_config = 4 / 100 \<and>
   sample_size narrow_config 19 = 3999999999999999999999999999 / 10 ^ 29 \<and>
   sample_size narrow_config 19 \<noteq> max_order_amount narrow_config \<and>
   sample_size narrow_config 19 \<noteq>
     min_order_amount narrow_config +
       19 * (max_order_amount narrow_config - min_order_amount narrow_config) / (20 - 1)"
proof -
  have m: "min_order_amount narrow_config = 1 / 100" "max_order_amount narrow_config = 4 / 100"
    by (simp_all add: narrow_config_def)
  have "(3999999999999999999999999999 / 10 ^ 29 :: rat) \<noteq> 4 / 100" by simp
  moreover have "(3999999999999999999999999999 / 10 ^ 29 :: rat) \<noteq>
      1 / 100 + 19 * (4 / 100 - 1 / 100) / (20 - 1)"
    by simp
  ultimately show ?thesis
    unfolding m sample_19_narrow by (simp only: simp_thms)
qed

section \<open>A sample that cannot be quoted\<close>

text \<open>
  Claim C2, as the code has it. The sweep has no exception handler. If the quote for sample
  \<open>k\<close> fails with an exception \<open>e\<close> and the samples before it yield proposals whose
  profitability can be evaluated, the sweep ends at sample \<open>k\<close> with the exception \<open>e\<close>:
  the failure leaves the sweep, and the results of the earlier samples are lost.
\<close>

theorem find_best_size_for_direction_failure_propagates:
  assumes "k < num_steps"
    and "\<forall>w. fst (q w b s (sample_size cfg k)) = Inl e"
    and "\<forall>i<k. \<forall>w. \<exists>rest. fst (q w b s (sample_size cfg i)) = Inr (P i # rest)"
    and "\<forall>i<k. \<exists>v. profit_pct (P i) True = Inr v"
  shows "fst (find_best_size_for_direction q cfg b s w) = Inl e"
  using assms by (rule sweep_first_failure)

theorem find_best_size_for_direction_failure_propagates_witness:
  "(19::nat) < num_steps \<and>
   fst (capped_venue () binance uniswap (sample_size default_config 19)) =
     Inl InsufficientLiquidity \<and>
   fst (capped_venue () binance uniswap (sample_size default_config 18)) =
     Inr [quote_at binance uniswap (sample_size default_config 18) 1000 1008 0] \<and>
   fst (find_best_size_for_direction capped_venue default_config binance uniswap ()) =
     Inl InsufficientLiquidity"
proof -
  have 1: "(19::nat) < num_steps" by (simp add: num_steps_def)
  have 2: "fst (capped_venue () binance uniswap (sample_size default_config 18)) =
     Inr [quote_at binance uniswap (sample_size default_config 18) 1000 1008 0]"
    using samples_default_range(2) [of 18] by (simp add: capped_venue_def)
  from find_best_size_for_direction_failure_propagates [where k = 19 and q = capped_venue
      and b = binance and s = uniswap and cfg = default_config and e = InsufficientLiquidity
      and P = "\<lambda>i. quote_at binance uniswap (sample_size default_config i) 1000 1008 0"
      and w = "()", OF 1 capped_venue_fails_19 capped_venue_quotes_before_19
      capped_venue_profit_before_19]
  show ?thesis
    using 1 2 capped_venue_fails_19 by blast
qed

theorem skip_insufficient_liquidity_counterexample:
  "fst (capped_venue () binance uniswap (sample_size default_config 0)) =
     Inr [quote_at binance uniswap (1 / 100) 1000 1008 0] \<and>
   profit_pct (quote_at binance uniswap (1 / 100) 1000 1008 0) True = Inr (1 / 125) \<and>
   fst (capped_venue () binance uniswap (sample_size default_config 19)) =
     Inl InsufficientLiquidity \<and>
   fst (find_best_size_for_direction capped_venue default_config binance uniswap ()) =
     Inl InsufficientLiquidity"
proof -
  have "fst (capped_venue () binance uniswap (sample_size default_config 0)) =
     Inr [quote_at binance uniswap (1 / 100) 1000 1008 0]"
    by (simp add: capped_venue_def sample_0_default)
  moreover have "fst (capped_venue () binance uniswap (sample_size default_config 19)) =
     Inl InsufficientLiquidity"
    by (simp add: capped_venue_def sample_19_default)
  ultimately show ?thesis
    using capped_venue_run [of "()"] profit_1008_small [of binance uniswap] by blast
qed

section \<open>The best sample of one direction\<close>



section \<open>Choosing between the two directions\<close>

text \<open>
  Claim C1. When both sweeps return, \<^verbatim>\<open>find_optimal_arb_opportunity\<close> returns the result of
  the first direction only if both are present and its profitability is strictly greater;
  with both present and the first not strictly greater, a tie included, it returns the
  second; with one of them present it returns that one; with none it returns none.
\<close>

theorem find_optimal_arb_opportunity_selection:
  assumes "connectors self ''market_1'' = Some m1"
    and "connectors self ''market_2'' = Some m2"
    and "find_best_size_for_direction q (config self) m1 m2 w = (Inr opp1, w1)"
    and "find_best_size_for_direction q (config self) m2 m1 w1 = (Inr opp2, w2)"
  shows "\<exists>r. find_optimal_arb_opportunity q self w = (Inr r, w2) \<and>
    (\<forall>a b. opp1 = Some a \<and> opp2 = Some b \<and> snd b < snd a \<longrightarrow> r = Some a) \<and>
    (\<forall>a b. opp1 = Some a \<and> opp2 = Some b \<and> snd a \<le> snd b \<longrightarrow> r = Some b) \<and>
    (opp2 = None \<longrightarrow> r = opp1) \<and>
    (opp1 = None \<longrightarrow> r = opp2)"
  using assms
  by (auto simp: find_optimal_arb_opportunity_def select_opportunity_def split: option.splits)

theorem find_optimal_arb_opportunity_selection_witness:
  "connectors (controller_init default_config example_connectors) ''market_1'' = Some binance \<and>
   connectors (controller_init default_config example_connectors) ''market_2'' = Some uniswap \<and>
   find_best_size_for_direction two_way_venue default_config binance uniswap () =
     (Inr (Some (quote_at binance uniswap 1 1000 1008 0, 1 / 125)), ()) \<and>
   find_best_size_for_direction two_way_venue default_config uniswap binance () =
     (Inr (Some (quote_at uniswap binance 1 1000 1005 0, 1 / 200)), ()) \<and>
   find_optimal_arb_opportunity two_way_venue (controller_init default_config example_connectors) () =
     (Inr (Some (quote_at binance uniswap 1 1000 1008 0, 1 / 125)), ())"
proof -
  let ?c = "controller_init default_config example_connectors"
  have c: "connectors ?c ''market_1'' = Some binance" "connectors ?c ''market_2'' = Some uniswap"
    "config ?c = default_config"
    by (simp_all add: controller_init_def example_connectors_def)
  have s1: "find_best_size_for_direction two_way_venue (config ?c) binance uniswap () =
     (Inr (Some (quote_at binance uniswap 1 1000 1008 0, 1 / 125)), ())"
    unfolding c(3) by (rule two_way_sweep_1)
  have s2: "find_best_size_for_direction two_way_venue (config ?c) uniswap binance () =
     (Inr (Some (quote_at uniswap binance 1 1000 1005 0, 1 / 200)), ())"
    unfolding c(3) by (rule two_way_sweep_2)
  from find_optimal_arb_opportunity_selection [OF c(1,2) s1 s2]
  have "find_optimal_arb_opportunity two_way_venue ?c () =
     (Inr (Some (quote_at binance uniswap 1 1000 1008 0, 1 / 125)), ())"
    by auto
  with c s1 s2 show ?thesis by simp
qed



section \<open>One cycle of the controller\<close>

text \<open>
  Claim C8. When \<^verbatim>\<open>find_optimal_arb_opportunity\<close> returns none, \<^verbatim>\<open>determine_actions\<close>
  returns the empty list, raises nothing, and leaves the controller, its last proposal
  included, as it was.
\<close>

theorem determine_actions_no_opportunity:
  assumes "find_optimal_arb_opportunity q self w = (Inr None, w')"
  shows "determine_actions q self w = (Inr [], self, w')"
  using assms by (simp add: determine_actions_def)

theorem determine_actions_no_opportunity_witness:
  "find_optimal_arb_opportunity flat_venue
     ((controller_init default_config example_connectors)
        \<lparr>last_proposal := Some (quote_at binance uniswap 1 1000 1008 0)\<rparr>) () = (Inr None, ()) \<and>
   determine_actions flat_venue
     ((controller_init default_config example_connectors)
        \<lparr>last_proposal := Some (quote_at binance uniswap 1 1000 1008 0)\<rparr>) () =
     (Inr [],
      (controller_init default_config example_connectors)
        \<lparr>last_proposal := Some (quote_at binance uniswap 1 1000 1008 0)\<rparr>, ())"
proof -
  have 1: "find_optimal_arb_opportunity flat_venue
     ((controller_init default_config example_connectors)
        \<lparr>last_proposal := Some (quote_at binance uniswap 1 1000 1008 0)\<rparr>) () = (Inr None, ())"
    by (simp add: find_optimal_arb_opportunity_def controller_init_def example_connectors_def
        flat_sweep select_opportunity_def)
  from 1 determine_actions_no_opportunity [OF 1] show ?thesis by simp
qed

text \<open>
  Claim C10. When \<^verbatim>\<open>find_optimal_arb_opportunity\<close> returns a proposal with its
  profitability, \<^verbatim>\<open>determine_actions\<close> stores the proposal as last proposal whatever the
  profitability is; it returns the two executors of the proposal if the profitability is at
  least \<^verbatim>\<open>min_profitability\<close>, and the empty list otherwise.
\<close>

theorem determine_actions_opportunity:
  assumes "find_optimal_arb_opportunity q self w = (Inr (Some (proposal, pct)), w')"
  shows "determine_actions q self w =
           (Inr (if min_profitability (config self) \<le> pct
                 then create_executors (config self) proposal else []),
            self\<lparr>last_proposal := Some proposal\<rparr>, w') \<and>
         length (create_executors (config self) proposal) = 2"
  using assms by (simp add: determine_actions_def create_executors_def Let_def)

theorem determine_actions_opportunity_witness:
  "find_optimal_arb_opportunity two_way_venue (controller_init strict_config example_connectors) () =
     (Inr (Some (quote_at binance uniswap 1 1000 1008 0, 1 / 125)), ()) \<and>
   determine_actions two_way_venue (controller_init strict_config example_connectors) () =
     (Inr [],
      (controller_init strict_config example_connectors)
        \<lparr>last_proposal := Some (quote_at binance uniswap 1 1000 1008 0)\<rparr>, ())"
proof -
  have 1: "find_optimal_arb_opportunity two_way_venue
      (controller_init strict_config example_connectors) () =
     (Inr (Some (quote_at binance uniswap 1 1000 1008 0, 1 / 125)), ())"
    by (rule two_way_optimal)
  have "min_profitability (config (controller_init strict_config example_connectors)) = 1 / 100"
    by (simp add: controller_init_def strict_config_def)
  with 1 determine_actions_opportunity [OF 1] show ?thesis by simp
qed

section \<open>Order candidates\<close>




section \<open>Configurations are not checked\<close>

text \<open>
  Claim C6, as the code has it. Nothing rejects a configuration: the configuration class
  has no validator, the controller keeps the configuration it is given, and the step count
  is the constant 20. Under any configuration, also one with
  \<^verbatim>\<open>max_order_amount < min_order_amount\<close> or a negative fraction, a sweep whose 20 samples
  are all quoted and evaluated returns a result and no exception.
\<close>

theorem configuration_not_checked:
  assumes "\<forall>i<num_steps. \<forall>w. \<exists>rest. fst (q w b s (sample_size cfg i)) = Inr (P i # rest)"
    and "\<forall>i<num_steps. \<exists>v. profit_pct (P i) True = Inr v"
  shows "config (controller_init cfg conns) = cfg \<and> 2 \<le> num_steps \<and>
         (\<exists>r. fst (find_best_size_for_direction q cfg b s w) = Inr r)"
proof -
  from assms(2) obtain f where "\<forall>i<num_steps. profit_pct (P i) True = Inr (f i)" by metis
  with assms(1) have "fst (find_best_size_for_direction q cfg b s w) =
    Inr (finish_sweep (foldl (\<lambda>best i. if fst best < f i then (f i, Some (P i)) else best)
           (- 1, None) [0..<num_steps]))"
    by (rule sweep_success)
  then show ?thesis by (simp add: controller_init_def num_steps_def)
qed

theorem configuration_not_checked_witness:
  "max_order_amount inverted_config < min_order_amount inverted_config \<and>
   config (controller_init inverted_config example_connectors) = inverted_config \<and>
   (\<exists>r. fst (find_best_size_for_direction two_way_venue inverted_config binance uniswap ()) =
      Inr r)"
proof -
  have 1: "\<forall>i<num_steps. \<forall>w. \<exists>rest.
      fst (two_way_venue w binance uniswap (sample_size inverted_config i)) =
        Inr (quote_at binance uniswap 1 1000 1008 0 # rest)"
    by (simp add: two_way_venue_def uniswap_def)
  have 2: "\<forall>i<num_steps. \<exists>v.
      profit_pct (quote_at binance uniswap 1 1000 1008 0) True = Inr v"
    using profit_1008 by blast
  have 3: "max_order_amount inverted_config < min_order_amount inverted_config"
    by (simp add: inverted_config_def)
  from configuration_not_checked [where q = two_way_venue and b = binance and s = uniswap
      and cfg = inverted_config and P = "\<lambda>i. quote_at binance uniswap 1 1000 1008 0"
      and conns = example_connectors and w = "()", OF 1 2] 3
  show ?thesis by blast
qed

theorem configuration_error_counterexample:
  "max_order_amount inverted_config < min_order_amount inverted_config \<and>
   config (controller_init inverted_config example_connectors) = inverted_config \<and>
   find_best_size_for_direction two_way_venue inverted_config binance uniswap () =
     (Inr (Some (quote_at binance uniswap 1 1000 1008 0, 1 / 125)), ()) \<and>
   fst (determine_actions two_way_venue (controller_init inverted_config example_connectors) ()) =
     Inr (create_executors inverted_config (quote_at binance uniswap 1 1000 1008 0)) \<and>
   length (create_executors inverted_config (quote_at binance uniswap 1 1000 1008 0)) = 2"
proof -
  have "max_order_amount inverted_config < min_order_amount inverted_config"
    by (simp add: inverted_config_def)
  moreover have c: "config (controller_init inverted_config example_connectors) = inverted_config"
    by (simp add: controller_init_def)
  moreover have "min_profitability inverted_config = 5 / 1000"
    by (simp add: inverted_config_def default_config_def)
  then have "fst (determine_actions two_way_venue
      (controller_init inverted_config example_connectors) ()) =
     Inr (create_executors inverted_config (quote_at binance uniswap 1 1000 1008 0))"
    by (simp add: determine_actions_def two_way_optimal c)
  moreover have "length (create_executors inverted_config
      (quote_at binance uniswap 1 1000 1008 0)) = 2"
    by (simp add: create_executors_def)
  ultimately show ?thesis using two_way_sweep_1 [of inverted_config] by blast
qed

end
